theory Spec2Isabelle
  imports Main "HOL-Library.Word"
begin

unbundle bit_operations_syntax

section \<open>JavaScript primitives used by the library\<close>

text \<open>
  The model of the two library files \<^verbatim>\<open>src/lib/hkdf.ts\<close> and \<^verbatim>\<open>src/lib/crypto.ts\<close>.
  A \<^verbatim>\<open>Uint8Array\<close> or \<^verbatim>\<open>ArrayBuffer\<close> is a list of bytes. A JavaScript string is a
  \<open>string\<close>, a list of 8-bit characters: the model covers strings whose code units
  are below 256, which includes every hex string and every ASCII salt and info.
  A function that can throw returns \<open>error + 'a\<close>, with \<open>Inl\<close> for the exception.
\<close>

type_synonym byte = "8 word"

text \<open>
  \<^verbatim>\<open>b.toString(16).padStart(2, '0')\<close>: the digits of a number in base 16, lowercase,
  without leading zeros, then padded on the left to two characters.
\<close>

definition hexDigit :: "nat \<Rightarrow> char" where
  "hexDigit d = ''0123456789abcdef'' ! d"

function toString16 :: "nat \<Rightarrow> string" where
  "toString16 n = (if n < 16 then [hexDigit n] else toString16 (n div 16) @ [hexDigit (n mod 16)])"
  by pat_completeness auto
termination
  by (relation "measure id") auto

declare toString16.simps [simp del]

definition padStart :: "nat \<Rightarrow> char \<Rightarrow> string \<Rightarrow> string" where
  "padStart w c s = replicate (w - length s) c @ s"

definition byteToHex :: "byte \<Rightarrow> string" where
  "byteToHex b = padStart 2 CHR ''0'' (toString16 (unat b))"

text \<open>
  \<^verbatim>\<open>arrayBufferToHex\<close> (crypto.ts lines 15-20; hkdf.ts lines 54-59 has the same text):
  \<^verbatim>\<open>'0x' + Array.from(bytes).map(b => b.toString(16).padStart(2, '0')).join('')\<close>.
\<close>

definition arrayBufferToHex :: "byte list \<Rightarrow> string" where
  "arrayBufferToHex bytes = ''0x'' @ concat (map byteToHex bytes)"

text \<open>
  \<^verbatim>\<open>s.replace(pat, rep)\<close> with a string pattern replaces the first occurrence of the
  pattern, wherever it is, and returns \<open>s\<close> unchanged when there is none.
\<close>

fun replaceFirst :: "string \<Rightarrow> string \<Rightarrow> string \<Rightarrow> string" where
  "replaceFirst pat rep [] = (if pat = [] then rep else [])"
| "replaceFirst pat rep (c # cs) =
     (if take (length pat) (c # cs) = pat then rep @ drop (length pat) (c # cs)
      else c # replaceFirst pat rep cs)"

text \<open>
  \<^verbatim>\<open>parseInt(s, 16)\<close>: leading white space is skipped, then an optional sign, then an
  optional \<^verbatim>\<open>0x\<close> or \<^verbatim>\<open>0X\<close>; the value is that of the longest run of hex digits that
  follows, and \<^verbatim>\<open>NaN\<close> (here \<open>None\<close>) when that run is empty. The white space
  characters are those of ECMAScript with a code below 256.
\<close>

definition isWhiteSpace :: "char \<Rightarrow> bool" where
  "isWhiteSpace c = ((of_char c :: nat) \<in> {9, 10, 11, 12, 13, 32, 160})"

definition hexVal :: "char \<Rightarrow> nat option" where
  "hexVal c = (let k = of_char c :: nat in
     if 48 \<le> k \<and> k \<le> 57 then Some (k - 48)
     else if 97 \<le> k \<and> k \<le> 102 then Some (k - 87)
     else if 65 \<le> k \<and> k \<le> 70 then Some (k - 55)
     else None)"

fun hexDigitsValue :: "nat \<Rightarrow> string \<Rightarrow> nat" where
  "hexDigitsValue acc [] = acc"
| "hexDigitsValue acc (c # cs) =
     (case hexVal c of None \<Rightarrow> acc | Some d \<Rightarrow> hexDigitsValue (16 * acc + d) cs)"

definition parseInt16 :: "string \<Rightarrow> int option" where
  "parseInt16 s =
     (let s1 = dropWhile isWhiteSpace s;
          neg = (take 1 s1 = ''-'');
          s2 = (if take 1 s1 = ''-'' \<or> take 1 s1 = ''+'' then drop 1 s1 else s1);
          s3 = (if take 2 s2 = ''0x'' \<or> take 2 s2 = ''0X'' then drop 2 s2 else s2)
      in case s3 of
           [] \<Rightarrow> None
         | c # cs \<Rightarrow> (case hexVal c of
                        None \<Rightarrow> None
                      | Some d \<Rightarrow> Some ((if neg then - 1 else 1) * int (hexDigitsValue 0 s3))))"

text \<open>
  Storing a number into a \<^verbatim>\<open>Uint8Array\<close> slot: \<^verbatim>\<open>NaN\<close> is stored as 0, an integer
  modulo 256.
\<close>

definition toUint8 :: "int option \<Rightarrow> byte" where
  "toUint8 v = (case v of None \<Rightarrow> 0 | Some n \<Rightarrow> word_of_int n)"

text \<open>\<^verbatim>\<open>s.substr(i, n)\<close>: at most \<open>n\<close> characters from index \<open>i\<close>; empty past the end.\<close>

definition substr :: "string \<Rightarrow> nat \<Rightarrow> nat \<Rightarrow> string" where
  "substr s i n = take n (drop i s)"

text \<open>
  \<^verbatim>\<open>hexToArrayBuffer\<close> (crypto.ts lines 23-30; hkdf.ts lines 61-68 has the same text).
  The array has \<^verbatim>\<open>cleanHex.length / 2\<close> slots, rounded down by the constructor; the loop
  writes slot \<open>i / 2\<close> for \<open>i = 0, 2, 4, ...\<close> below the length, and a write past the
  last slot (odd length) is dropped.
\<close>

definition hexToArrayBuffer :: "string \<Rightarrow> byte list" where
  "hexToArrayBuffer hex =
     (let cleanHex = replaceFirst ''0x'' '''' hex
      in map (\<lambda>k. toUint8 (parseInt16 (substr cleanHex (2 * k) 2))) [0 ..< length cleanHex div 2])"

section \<open>HMAC-SHA256 of the platform (crypto.subtle)\<close>

text \<open>
  \<^verbatim>\<open>crypto.subtle.sign('HMAC', key, data)\<close> with hash SHA-256 is the platform's
  HMAC-SHA256, not code of the repository. It is modelled after FIPS 180-4 (SHA-256:
  padding, message schedule, 64 rounds per 64-byte block) and RFC 2104 (HMAC: a key
  longer than the block is hashed, then padded with zeros to 64 bytes). The round
  constants and the initial hash value are those of FIPS 180-4, written in decimal.
\<close>

type_synonym u32 = "32 word"

definition Ch :: "u32 \<Rightarrow> u32 \<Rightarrow> u32 \<Rightarrow> u32" where
  "Ch x y z = (x AND y) XOR (NOT x AND z)"

definition Maj :: "u32 \<Rightarrow> u32 \<Rightarrow> u32 \<Rightarrow> u32" where
  "Maj x y z = (x AND y) XOR (x AND z) XOR (y AND z)"

definition bsig0 :: "u32 \<Rightarrow> u32" where
  "bsig0 x = word_rotr 2 x XOR word_rotr 13 x XOR word_rotr 22 x"

definition bsig1 :: "u32 \<Rightarrow> u32" where
  "bsig1 x = word_rotr 6 x XOR word_rotr 11 x XOR word_rotr 25 x"

definition ssig0 :: "u32 \<Rightarrow> u32" where
  "ssig0 x = word_rotr 7 x XOR word_rotr 18 x XOR drop_bit 3 x"

definition ssig1 :: "u32 \<Rightarrow> u32" where
  "ssig1 x = word_rotr 17 x XOR word_rotr 19 x XOR drop_bit 10 x"

definition K256 :: "u32 list" where
  "K256 =
   [1116352408, 1899447441, 3049323471, 3921009573, 961987163, 1508970993, 2453635748, 2870763221,
    3624381080, 310598401, 607225278, 1426881987, 1925078388, 2162078206, 2614888103, 3248222580,
    3835390401, 4022224774, 264347078, 604807628, 770255983, 1249150122, 1555081692, 1996064986,
    2554220882, 2821834349, 2952996808, 3210313671, 3336571891, 3584528711, 113926993, 338241895,
    666307205, 773529912, 1294757372, 1396182291, 1695183700, 1986661051, 2177026350, 2456956037,
    2730485921, 2820302411, 3259730800, 3345764771, 3516065817, 3600352804, 4094571909, 275423344,
    430227734, 506948616, 659060556, 883997877, 958139571, 1322822218, 1537002063, 1747873779,
    1955562222, 2024104815, 2227730452, 2361852424, 2428436474, 2756734187, 3204031479, 3329325298]"

type_synonym sha_state = "u32 \<times> u32 \<times> u32 \<times> u32 \<times> u32 \<times> u32 \<times> u32 \<times> u32"

definition H256 :: sha_state where
  "H256 = (1779033703, 3144134277, 1013904242, 2773480762,
           1359893119, 2600822924, 528734635, 1541459225)"

definition be32 :: "byte list \<Rightarrow> u32" where
  "be32 bs = foldl (\<lambda>acc b. push_bit 8 acc OR ucast b) 0 bs"

definition u32_bytes :: "u32 \<Rightarrow> byte list" where
  "u32_bytes w = [ucast (drop_bit 24 w), ucast (drop_bit 16 w), ucast (drop_bit 8 w), ucast w]"

definition len64_bytes :: "nat \<Rightarrow> byte list" where
  "len64_bytes v = map (\<lambda>i. ucast (drop_bit (8 * (7 - i)) (word_of_nat v :: 64 word))) [0 ..< 8]"

definition sha256_pad :: "byte list \<Rightarrow> byte list" where
  "sha256_pad msg =
     msg @ [0x80] @ replicate ((119 - length msg mod 64) mod 64) 0 @ len64_bytes (8 * length msg)"

fun schedule :: "nat \<Rightarrow> u32 list \<Rightarrow> u32 list" where
  "schedule 0 w = w"
| "schedule (Suc n) w =
     (let t = length w
      in schedule n (w @ [ssig1 (w ! (t - 2)) + w ! (t - 7) + ssig0 (w ! (t - 15)) + w ! (t - 16)]))"

fun sha_round :: "sha_state \<Rightarrow> u32 \<times> u32 \<Rightarrow> sha_state" where
  "sha_round (a, b, c, d, e, f, g, h) (k, w) =
     (let t1 = h + bsig1 e + Ch e f g + k + w;
          t2 = bsig0 a + Maj a b c
      in (t1 + t2, a, b, c, d + t1, e, f, g))"

fun sha_add :: "sha_state \<Rightarrow> sha_state \<Rightarrow> sha_state" where
  "sha_add (a, b, c, d, e, f, g, h) (a', b', c', d', e', f', g', h') =
     (a + a', b + b', c + c', d + d', e + e', f + f', g + g', h + h')"

definition compress :: "sha_state \<Rightarrow> byte list \<Rightarrow> sha_state" where
  "compress H block =
     (let w = schedule 48 (map (\<lambda>i. be32 (take 4 (drop (4 * i) block))) [0 ..< 16])
      in sha_add H (foldl sha_round H (zip K256 w)))"

fun sha_state_bytes :: "sha_state \<Rightarrow> byte list" where
  "sha_state_bytes (a, b, c, d, e, f, g, h) = concat (map u32_bytes [a, b, c, d, e, f, g, h])"

definition sha256 :: "byte list \<Rightarrow> byte list" where
  "sha256 msg =
     (let p = sha256_pad msg
      in sha_state_bytes
           (foldl compress H256 (map (\<lambda>i. take 64 (drop (64 * i) p)) [0 ..< length p div 64])))"

definition hmac_sha256 :: "byte list \<Rightarrow> byte list \<Rightarrow> byte list" where
  "hmac_sha256 key msg =
     (let k0 = (if 64 < length key then sha256 key else key);
          k = k0 @ replicate (64 - length k0) 0
      in sha256 (map (\<lambda>b. b XOR 0x5c) k @ sha256 (map (\<lambda>b. b XOR 0x36) k @ msg)))"

section \<open>hkdf.ts\<close>

text \<open>
  The exceptions of the model: \<open>SyntaxError\<close> is thrown by \<^verbatim>\<open>BigInt\<close> on a string that
  is no hex literal, \<open>DataError\<close> by \<^verbatim>\<open>crypto.subtle.importKey\<close> on an empty HMAC key,
  \<open>InvalidScalar\<close> and \<open>InvalidPoint\<close> by the curve library, \<open>InvalidFormat\<close> is the
  two \<^verbatim>\<open>throw new Error('Invalid ... format')\<close> of crypto.ts. \<open>InvalidLength\<close> is the error
  the specification names for HKDF; no statement of the code throws it.
\<close>

datatype error = SyntaxError | DataError | InvalidScalar | InvalidPoint | InvalidFormat | InvalidLength

text \<open>
  \<^verbatim>\<open>new TextEncoder().encode(s)\<close>: UTF-8, one byte for a code unit below 128 and two
  bytes for one from 128 to 255.
\<close>

definition utf8_unit :: "char \<Rightarrow> byte list" where
  "utf8_unit c =
     (let k = of_char c :: nat
      in if k < 128 then [of_nat k] else [of_nat (192 + k div 64), of_nat (128 + k mod 64)])"

definition textEncode :: "string \<Rightarrow> byte list" where
  "textEncode s = concat (map utf8_unit s)"

definition importKey :: "byte list \<Rightarrow> error + byte list" where
  "importKey keyData = (if keyData = [] then Inl DataError else Inr keyData)"

definition sign :: "byte list \<Rightarrow> byte list \<Rightarrow> byte list" where
  "sign key data = hmac_sha256 key data"

text \<open>
  \<^verbatim>\<open>Math.ceil(length / 32)\<close> on an integer, and \<^verbatim>\<open>okm.slice(0, length)\<close>: a negative
  end counts from the end of the array, an end beyond the array stops at its end.
\<close>

definition ceil32 :: "int \<Rightarrow> int" where
  "ceil32 len = - ((- len) div 32)"

definition slice0 :: "byte list \<Rightarrow> int \<Rightarrow> byte list" where
  "slice0 xs e = (if e < 0 then take (nat (int (length xs) + e)) xs else take (nat e) xs)"

text \<open>
  \<^verbatim>\<open>hkdf\<close> (hkdf.ts lines 3-52). The loop \<^verbatim>\<open>for (let i = 1; i <= n; i++)\<close> of lines 37-49
  with its variables \<open>t\<close> and \<open>okm\<close>; \<^verbatim>\<open>input[input.length - 1] = i\<close> stores \<open>i\<close>
  modulo 256. \<open>hkdf_extract\<close> is lines 10-22, the extract step, whose result the
  function keeps in \<open>prk\<close>. The length is an integer here; the source has no check on it.
\<close>

function hkdf_loop :: "byte list \<Rightarrow> byte list \<Rightarrow> int \<Rightarrow> int \<Rightarrow> byte list \<Rightarrow> byte list \<Rightarrow> byte list" where
  "hkdf_loop expandKey infoBytes n i t okm =
     (if i \<le> n
      then (let input = t @ infoBytes @ [word_of_int i];
                t' = sign expandKey input
            in hkdf_loop expandKey infoBytes n (i + 1) t' (okm @ t'))
      else okm)"
  by pat_completeness auto
termination
  by (relation "measure (\<lambda>(expandKey, infoBytes, n, i, t, okm). nat (n + 1 - i))") auto

declare hkdf_loop.simps [simp del]

definition hkdf_extract :: "byte list \<Rightarrow> string \<Rightarrow> error + byte list" where
  "hkdf_extract ikm salt =
     (let saltBytes = textEncode salt
      in case importKey (if 0 < length saltBytes then saltBytes else replicate 32 0) of
           Inl e \<Rightarrow> Inl e
         | Inr extractKey \<Rightarrow> Inr (sign extractKey ikm))"

definition hkdf :: "byte list \<Rightarrow> string \<Rightarrow> string \<Rightarrow> int \<Rightarrow> error + byte list" where
  "hkdf ikm salt info len =
     (let infoBytes = textEncode info
      in case hkdf_extract ikm salt of
           Inl e \<Rightarrow> Inl e
         | Inr prk \<Rightarrow>
             (case importKey prk of
                Inl e \<Rightarrow> Inl e
              | Inr expandKey \<Rightarrow>
                  (let n = ceil32 len;
                       okm = hkdf_loop expandKey infoBytes n 1 [] []
                   in Inr (slice0 okm len))))"

text \<open>
  \<^verbatim>\<open>hkdfWithSteps\<close> (hkdf.ts lines 71-127), translated from its own text: its loop
  (lines 105-117), its extract step (lines 78-90) and the object it returns.
\<close>

record hkdf_steps =
  prk :: "byte list"
  okm :: "byte list"
  prkHex :: string
  okmHex :: string

function hkdfWithSteps_loop :: "byte list \<Rightarrow> byte list \<Rightarrow> int \<Rightarrow> int \<Rightarrow> byte list \<Rightarrow> byte list \<Rightarrow> byte list" where
  "hkdfWithSteps_loop expandKey infoBytes n i t acc =
     (if i \<le> n
      then (let input = t @ infoBytes @ [word_of_int i];
                t' = sign expandKey input
            in hkdfWithSteps_loop expandKey infoBytes n (i + 1) t' (acc @ t'))
      else acc)"
  by pat_completeness auto
termination
  by (relation "measure (\<lambda>(expandKey, infoBytes, n, i, t, acc). nat (n + 1 - i))") auto

declare hkdfWithSteps_loop.simps [simp del]

definition hkdfWithSteps_extract :: "byte list \<Rightarrow> string \<Rightarrow> error + byte list" where
  "hkdfWithSteps_extract ikm salt =
     (let saltBytes = textEncode salt
      in case importKey (if 0 < length saltBytes then saltBytes else replicate 32 0) of
           Inl e \<Rightarrow> Inl e
         | Inr extractKey \<Rightarrow> Inr (sign extractKey ikm))"

definition hkdfWithSteps :: "byte list \<Rightarrow> string \<Rightarrow> string \<Rightarrow> int \<Rightarrow> error + hkdf_steps" where
  "hkdfWithSteps ikm salt info len =
     (let infoBytes = textEncode info
      in case hkdfWithSteps_extract ikm salt of
           Inl e \<Rightarrow> Inl e
         | Inr prk_v \<Rightarrow>
             (case importKey prk_v of
                Inl e \<Rightarrow> Inl e
              | Inr expandKey \<Rightarrow>
                  (let n = ceil32 len;
                       okm_v = hkdfWithSteps_loop expandKey infoBytes n 1 [] [];
                       finalOkm = slice0 okm_v len
                   in Inr \<lparr>prk = prk_v, okm = finalOkm,
                           prkHex = arrayBufferToHex prk_v, okmHex = arrayBufferToHex finalOkm\<rparr>)))"

section \<open>crypto.ts\<close>

text \<open>
  \<^verbatim>\<open>interface ECPoint { x: string; y: string }\<close>; the fields are named \<open>ec_x\<close> and
  \<open>ec_y\<close> here.
\<close>

record ECPoint =
  ec_x :: string
  ec_y :: string

text \<open>
  \<^verbatim>\<open>crypto.getRandomValues\<close> reads the platform's random source, which is a parameter
  of the model: an infinite tape of bytes. A draw of \<open>len\<close> bytes returns the first
  \<open>len\<close> bytes and the rest of the tape.
\<close>

type_synonym rng = "nat \<Rightarrow> byte"

definition getRandomValues :: "nat \<Rightarrow> rng \<Rightarrow> byte list \<times> rng" where
  "getRandomValues len r = (map r [0 ..< len], (\<lambda>i. r (len + i)))"

text \<open>\<^verbatim>\<open>generatePrivateKey\<close> (crypto.ts lines 33-37) and \<^verbatim>\<open>generateBlind\<close> (lines 174-176).\<close>

definition generatePrivateKey :: "rng \<Rightarrow> string \<times> rng" where
  "generatePrivateKey r =
     (let (privateKeyBytes, r') = getRandomValues 32 r
      in (arrayBufferToHex privateKeyBytes, r'))"

definition generateBlind :: "rng \<Rightarrow> string \<times> rng" where
  "generateBlind r = generatePrivateKey r"

text \<open>
  \<^verbatim>\<open>createPrivateKeyFromHex\<close> (crypto.ts lines 93-110). \<^verbatim>\<open>crypto.subtle.generateKey\<close>
  is the platform's: a parameter that maps the random source to a key pair and the
  rest of the source. Keys are opaque (\<open>'k\<close>).
\<close>

record 'k CryptoKeyPair =
  privateKey :: 'k
  publicKey :: 'k

definition createPrivateKeyFromHex ::
    "(rng \<Rightarrow> 'k CryptoKeyPair \<times> rng) \<Rightarrow> string \<Rightarrow> rng \<Rightarrow> 'k \<times> rng" where
  "createPrivateKeyFromHex generateKey privateKeyHex r =
     (let (keyPair, r') = generateKey r
      in (privateKey keyPair, r'))"

text \<open>
  \<^verbatim>\<open>BigInt('0x' + digits)\<close>: the string must be \<^verbatim>\<open>0x\<close>, one or more hex digits, and
  optional trailing white space; anything else throws a \<^verbatim>\<open>SyntaxError\<close>.
\<close>

definition trimEnd :: "string \<Rightarrow> string" where
  "trimEnd s = rev (dropWhile isWhiteSpace (rev s))"

definition bigIntOfHex :: "string \<Rightarrow> error + nat" where
  "bigIntOfHex digits =
     (let body = trimEnd digits
      in if body \<noteq> [] \<and> list_all (\<lambda>c. hexVal c \<noteq> None) body
         then Inr (hexDigitsValue 0 body)
         else Inl SyntaxError)"

text \<open>
  The curve arithmetic is \<^verbatim>\<open>p256\<close> of the external library @noble/curves. A curve is a
  parameter of the model: its group order, its base point \<open>G\<close>, the point at infinity,
  the predicate "is a point of the curve", scalar multiplication, and the SEC1
  uncompressed encoding of a point with its decoder. \<open>curve_ok\<close> states what the code
  relies on: \<open>G\<close> is a non-zero point of the curve; a multiple \<open>k * P\<close> of a non-zero
  point with \<open>0 < k < n\<close> is a non-zero point (the order is prime); scalar
  multiplications commute; a non-zero point is encoded in 65 bytes that start with
  \<open>0x04\<close> and decode to the same point.
\<close>

record 'p curve =
  curve_n :: nat
  curve_G :: 'p
  curve_O :: 'p
  curve_valid :: "'p \<Rightarrow> bool"
  curve_mul :: "nat \<Rightarrow> 'p \<Rightarrow> 'p"
  curve_toBytes :: "'p \<Rightarrow> byte list"
  curve_fromBytes :: "byte list \<Rightarrow> 'p option"

definition curve_ok :: "'p curve \<Rightarrow> bool" where
  "curve_ok C \<longleftrightarrow>
     curve_valid C (curve_G C) \<and> curve_G C \<noteq> curve_O C \<and>
     (\<forall>k P. curve_valid C P \<and> P \<noteq> curve_O C \<and> 0 < k \<and> k < curve_n C \<longrightarrow>
        curve_valid C (curve_mul C k P) \<and> curve_mul C k P \<noteq> curve_O C) \<and>
     (\<forall>a b P. curve_valid C P \<longrightarrow>
        curve_mul C a (curve_mul C b P) = curve_mul C b (curve_mul C a P)) \<and>
     (\<forall>P. curve_valid C P \<and> P \<noteq> curve_O C \<longrightarrow>
        length (curve_toBytes C P) = 65 \<and> take 1 (curve_toBytes C P) = [0x04] \<and>
        curve_fromBytes C (curve_toBytes C P) = Some P)"

text \<open>
  The library's functions as the code calls them. \<^verbatim>\<open>ProjectivePoint.fromHex\<close> throws
  on bytes that are no valid non-zero point; \<^verbatim>\<open>multiply\<close> throws unless
  \<open>0 < scalar < n\<close>; \<^verbatim>\<open>toRawBytes\<close> throws on the point at infinity;
  \<^verbatim>\<open>getPublicKey(k, false)\<close> is \<open>G.multiply(k)\<close> encoded, and throws on a private key
  outside \<open>[1, n - 1]\<close>.
\<close>

definition fromHex :: "'p curve \<Rightarrow> byte list \<Rightarrow> error + 'p" where
  "fromHex C bytes =
     (case curve_fromBytes C bytes of
        None \<Rightarrow> Inl InvalidPoint
      | Some P \<Rightarrow> if P = curve_O C then Inl InvalidPoint else Inr P)"

definition multiply :: "'p curve \<Rightarrow> 'p \<Rightarrow> nat \<Rightarrow> error + 'p" where
  "multiply C P sc =
     (if 0 < sc \<and> sc < curve_n C then Inr (curve_mul C sc P) else Inl InvalidScalar)"

definition toRawBytes :: "'p curve \<Rightarrow> 'p \<Rightarrow> error + byte list" where
  "toRawBytes C P = (if P = curve_O C then Inl InvalidPoint else Inr (curve_toBytes C P))"

definition getPublicKey :: "'p curve \<Rightarrow> nat \<Rightarrow> error + byte list" where
  "getPublicKey C privateKey_v =
     (case multiply C (curve_G C) privateKey_v of
        Inl e \<Rightarrow> Inl e
      | Inr P \<Rightarrow> toRawBytes C P)"

text \<open>
  \<^verbatim>\<open>performECDH\<close> (crypto.ts lines 122-171). \<open>parseCoord\<close> is the loop of lines 136-139
  for one coordinate; \<open>bytesToPoint\<close> is lines 160-166 (and 195-201): the slices
  \<open>(1, 33)\<close> and \<open>(33, 65)\<close> in hex with the prefix \<^verbatim>\<open>0x\<close>. The \<^verbatim>\<open>catch\<close> block logs
  and rethrows, so an error leaves the function unchanged.
\<close>

definition parseCoord :: "string \<Rightarrow> byte list" where
  "parseCoord cleanHex = map (\<lambda>i. toUint8 (parseInt16 (substr cleanHex (i * 2) 2))) [0 ..< 32]"

definition bytesToPoint :: "byte list \<Rightarrow> ECPoint" where
  "bytesToPoint bs =
     \<lparr>ec_x = ''0x'' @ concat (map byteToHex (take 32 (drop 1 bs))),
      ec_y = ''0x'' @ concat (map byteToHex (take 32 (drop 33 bs)))\<rparr>"

definition performECDH :: "'p curve \<Rightarrow> string \<Rightarrow> ECPoint \<Rightarrow> error + ECPoint" where
  "performECDH C privateKeyHex publicKeyPoint =
     (let cleanPrivateHex = replaceFirst ''0x'' '''' privateKeyHex
      in case bigIntOfHex cleanPrivateHex of
           Inl e \<Rightarrow> Inl e
         | Inr privateKeyBigInt \<Rightarrow>
             (let cleanXHex = replaceFirst ''0x'' '''' (ec_x publicKeyPoint);
                  cleanYHex = replaceFirst ''0x'' '''' (ec_y publicKeyPoint);
                  xBytes = parseCoord cleanXHex;
                  yBytes = parseCoord cleanYHex;
                  publicKeyBytes = [0x04] @ xBytes @ yBytes
              in case fromHex C publicKeyBytes of
                   Inl e \<Rightarrow> Inl e
                 | Inr point \<Rightarrow>
                     (case multiply C point privateKeyBigInt of
                        Inl e \<Rightarrow> Inl e
                      | Inr resultPoint \<Rightarrow>
                          (case toRawBytes C resultPoint of
                             Inl e \<Rightarrow> Inl e
                           | Inr resultArray \<Rightarrow>
                               if take 1 resultArray \<noteq> [0x04] \<or> length resultArray \<noteq> 65
                               then Inl InvalidFormat
                               else Inr (bytesToPoint resultArray)))))"

text \<open>
  \<^verbatim>\<open>scalarMultiplication\<close> (lines 113-116), \<^verbatim>\<open>privateKeyToPublicKey\<close> (lines 179-202)
  and \<^verbatim>\<open>calculateDbG\<close> (lines 205-213).
\<close>

definition scalarMultiplication :: "'p curve \<Rightarrow> string \<Rightarrow> ECPoint \<Rightarrow> error + ECPoint" where
  "scalarMultiplication C scalar point = performECDH C scalar point"

definition privateKeyToPublicKey :: "'p curve \<Rightarrow> string \<Rightarrow> error + ECPoint" where
  "privateKeyToPublicKey C privateKeyHex =
     (let cleanHex = replaceFirst ''0x'' '''' privateKeyHex
      in case bigIntOfHex cleanHex of
           Inl e \<Rightarrow> Inl e
         | Inr privateKeyBigInt \<Rightarrow>
             (case getPublicKey C privateKeyBigInt of
                Inl e \<Rightarrow> Inl e
              | Inr publicKeyBytes \<Rightarrow>
                  if take 1 publicKeyBytes \<noteq> [0x04] \<or> length publicKeyBytes \<noteq> 65
                  then Inl InvalidFormat
                  else Inr (bytesToPoint publicKeyBytes)))"

definition calculateDbG :: "'p curve \<Rightarrow> string \<Rightarrow> string \<Rightarrow> error + ECPoint" where
  "calculateDbG C hsmPrivateKey blind =
     (case privateKeyToPublicKey C blind of
        Inl e \<Rightarrow> Inl e
      | Inr blindPublicKey \<Rightarrow> performECDH C hsmPrivateKey blindPublicKey)"

section \<open>The two sides of the exchange\<close>

text \<open>
  The scalar that \<^verbatim>\<open>performECDH\<close> and \<^verbatim>\<open>privateKeyToPublicKey\<close> read from their hex
  argument: \<^verbatim>\<open>BigInt('0x' + privateKeyHex.replace('0x', ''))\<close>.
\<close>

definition scalarOfHex :: "string \<Rightarrow> error + nat" where
  "scalarOfHex privateKeyHex = bigIntOfHex (replaceFirst ''0x'' '''' privateKeyHex)"

text \<open>
  The two sides of the exchange as the demonstration runs them (crypto.ts lines
  375-412 and 440-498). Producer: \<open>V = privateKeyToPublicKey(v)\<close>,
  \<open>B = scalarMultiplication(b, V)\<close>, \<open>S = performECDH(d, B)\<close>, then \<^verbatim>\<open>deriveHMACKey\<close>:
  \<^verbatim>\<open>hkdfWithSteps(hexToArrayBuffer(S.x), salt, info, 32).okmHex\<close>. Validator:
  \<open>D = calculateDbG(d, b)\<close>, \<open>S = performECDH(v, D)\<close>, then
  \<^verbatim>\<open>arrayBufferToHex(hkdf(hexToArrayBuffer(S.x), salt, info, 32))\<close>. Only the
  computation of each callback is modelled, not the state of the page.
\<close>

definition producerSecret :: "'p curve \<Rightarrow> string \<Rightarrow> string \<Rightarrow> string \<Rightarrow> error + ECPoint" where
  "producerSecret C d b v =
     (case privateKeyToPublicKey C v of
        Inl e \<Rightarrow> Inl e
      | Inr validatorPublicKey \<Rightarrow>
          (case scalarMultiplication C b validatorPublicKey of
             Inl e \<Rightarrow> Inl e
           | Inr blindedKey \<Rightarrow> performECDH C d blindedKey))"

definition validatorSecret :: "'p curve \<Rightarrow> string \<Rightarrow> string \<Rightarrow> string \<Rightarrow> error + ECPoint" where
  "validatorSecret C d b v =
     (case calculateDbG C d b of
        Inl e \<Rightarrow> Inl e
      | Inr dbPoint \<Rightarrow> performECDH C v dbPoint)"

definition deriveHMACKey :: "ECPoint \<Rightarrow> string \<Rightarrow> string \<Rightarrow> error + string" where
  "deriveHMACKey hsmEcdhResult hkdfSalt hkdfInfo =
     (let ikm = hexToArrayBuffer (ec_x hsmEcdhResult)
      in case hkdfWithSteps ikm hkdfSalt hkdfInfo 32 of
           Inl e \<Rightarrow> Inl e
         | Inr result \<Rightarrow> Inr (okmHex result))"

definition validatorHmacKey :: "ECPoint \<Rightarrow> string \<Rightarrow> string \<Rightarrow> error + string" where
  "validatorHmacKey result hkdfSalt hkdfInfo =
     (let ikm = hexToArrayBuffer (ec_x result)
      in case hkdf ikm hkdfSalt hkdfInfo 32 of
           Inl e \<Rightarrow> Inl e
         | Inr derivedKey \<Rightarrow> Inr (arrayBufferToHex derivedKey))"

section \<open>An example curve and fixed random sources\<close>

text \<open>
  An example curve for concrete runs: the group of integers modulo 7 under addition,
  \<open>G = 1\<close>, the point \<open>P\<close> encoded as \<open>0x04\<close>, the 32-byte big-endian \<open>P\<close>, and 32
  zero bytes.
\<close>

definition toy_toBytes :: "nat \<Rightarrow> byte list" where
  "toy_toBytes P = [0x04] @ replicate 31 0 @ [of_nat P] @ replicate 32 0"

definition toy_fromBytes :: "byte list \<Rightarrow> nat option" where
  "toy_fromBytes bs =
     (if length bs = 65 \<and> unat (bs ! 32) < 7 \<and> bs = toy_toBytes (unat (bs ! 32))
      then Some (unat (bs ! 32)) else None)"

definition toy_curve :: "nat curve" where
  "toy_curve =
     \<lparr>curve_n = 7, curve_G = 1, curve_O = 0, curve_valid = (\<lambda>P. P < 7),
      curve_mul = (\<lambda>k P. (k * P) mod 7),
      curve_toBytes = toy_toBytes, curve_fromBytes = toy_fromBytes\<rparr>"

text \<open>The big-endian value of a byte string.\<close>

definition be_nat :: "byte list \<Rightarrow> nat" where
  "be_nat bs = foldl (\<lambda>acc b. 256 * acc + unat b) 0 bs"

text \<open>The group order of P-256, and two states of the random source: all bytes 0, all bytes 255.\<close>

definition p256_n :: nat where
  "p256_n = 0xffffffff00000000ffffffffffffffffbce6faada7179e84f3b9cac2fc632551"

definition zero_rng :: rng where
  "zero_rng i = 0"

definition ones_rng :: rng where
  "ones_rng i = 0xff"

section \<open>RFC 5869 expand, as the specification words it\<close>

text \<open>
  The expand step in the words of the specification (section 4.2): \<open>T(0)\<close> is empty,
  \<open>T(i) = HMAC(prk, T(i-1) || info || byte(i))\<close> for \<open>i = 1..ceil(length/HashLen)\<close>,
  the blocks are concatenated and cut to \<open>length\<close> bytes; it fails with
  \<open>InvalidLength\<close> if \<open>length > 255 * HashLen\<close>.
\<close>

fun rfc_T :: "byte list \<Rightarrow> byte list \<Rightarrow> nat \<Rightarrow> byte list" where
  "rfc_T key info 0 = []"
| "rfc_T key info (Suc i) = hmac_sha256 key (rfc_T key info i @ info @ [of_nat (Suc i)])"

definition rfc_expand :: "byte list \<Rightarrow> byte list \<Rightarrow> nat \<Rightarrow> error + byte list" where
  "rfc_expand key info L =
     (if 255 * 32 < L then Inl InvalidLength
      else Inr (take L (concat (map (rfc_T key info) [1 ..< Suc ((L + 31) div 32)]))))"

section \<open>Hex encoding and decoding\<close>

lemma nat_less_16_cases:
  "d < 16 \<Longrightarrow> d \<in> {0, 1, 2, 3, 4, 5, 6, 7, 8, 9, 10, 11, 12, 13, 14, 15::nat}"
  by (simp del: One_nat_def) arith

lemma hexVal_hexDigit: "d < 16 \<Longrightarrow> hexVal (hexDigit d) = Some d"
  by (drule nat_less_16_cases) (auto simp: hexVal_def hexDigit_def)

lemma hexDigit_not_ws: "d < 16 \<Longrightarrow> \<not> isWhiteSpace (hexDigit d)"
  by (drule nat_less_16_cases) (auto simp: isWhiteSpace_def hexDigit_def)

lemma hexDigit_not_special:
  "d < 16 \<Longrightarrow> hexDigit d \<noteq> CHR ''-'' \<and> hexDigit d \<noteq> CHR ''+'' \<and> hexDigit d \<noteq> CHR ''x'' \<and> hexDigit d \<noteq> CHR ''X''"
  by (drule nat_less_16_cases) (auto simp: hexDigit_def)

lemma byteToHex_digits:
  "byteToHex b = [hexDigit (unat b div 16), hexDigit (unat b mod 16)]"
proof -
  have lt: "unat b < 256" using unsigned_less [of b] by simp
  show ?thesis
  proof (cases "unat b < 16")
    case True
    then show ?thesis
      by (simp add: byteToHex_def padStart_def toString16.simps [of "unat b"] hexDigit_def)
  next
    case False
    moreover from lt have "unat b div 16 < 16" by simp
    ultimately show ?thesis
      by (simp add: byteToHex_def padStart_def toString16.simps [of "unat b"]
          toString16.simps [of "unat b div 16"])
  qed
qed

lemma parseInt16_pair:
  assumes "hi < 16" "lo < 16"
  shows "parseInt16 [hexDigit hi, hexDigit lo] = Some (int (16 * hi + lo))"
  using assms hexDigit_not_ws [of hi] hexDigit_not_special [of hi] hexDigit_not_special [of lo]
  by (simp add: parseInt16_def hexVal_hexDigit)

lemma toUint8_byteToHex: "toUint8 (parseInt16 (byteToHex b)) = b"
proof -
  have lt: "unat b < 256" using unsigned_less [of b] by simp
  then have "unat b div 16 < 16" by simp
  then have "parseInt16 (byteToHex b) = Some (int (16 * (unat b div 16) + unat b mod 16))"
    by (simp add: byteToHex_digits parseInt16_pair)
  then show ?thesis by (simp add: toUint8_def)
qed

lemma length_byteToHex: "length (byteToHex b) = 2"
  by (simp add: byteToHex_digits)

lemma length_concat_byteToHex: "length (concat (map byteToHex bs)) = 2 * length bs"
  by (induction bs) (simp_all add: length_byteToHex)

lemma substr_concat_byteToHex:
  "k < length bs \<Longrightarrow> substr (concat (map byteToHex bs)) (2 * k) 2 = byteToHex (bs ! k)"
proof (induction bs arbitrary: k)
  case Nil
  then show ?case by simp
next
  case (Cons b bs)
  show ?case
  proof (cases k)
    case 0
    then show ?thesis by (simp add: substr_def length_byteToHex)
  next
    case (Suc j)
    with Cons.prems have "j < length bs" by simp
    from Cons.IH [OF this] Suc show ?thesis
      by (simp add: substr_def length_byteToHex)
  qed
qed

lemma hexToArrayBuffer_arrayBufferToHex: "hexToArrayBuffer (arrayBufferToHex b) = b"
proof -
  have "map (\<lambda>k. toUint8 (parseInt16 (substr (concat (map byteToHex b)) (2 * k) 2))) [0 ..< length b]
      = map (\<lambda>k. b ! k) [0 ..< length b]"
    by (rule map_cong) (simp_all add: substr_concat_byteToHex toUint8_byteToHex)
  then show ?thesis
    by (simp add: hexToArrayBuffer_def arrayBufferToHex_def length_concat_byteToHex map_nth)
qed

section \<open>HKDF: extract, expand and the two implementations\<close>

lemma length_sha_state_bytes: "length (sha_state_bytes s) = 32"
  by (induction s rule: sha_state_bytes.induct) (simp add: u32_bytes_def)

lemma length_sha256: "length (sha256 m) = 32"
  by (simp add: sha256_def Let_def length_sha_state_bytes)

lemma length_hmac_sha256: "length (hmac_sha256 k m) = 32"
  by (simp add: hmac_sha256_def Let_def length_sha256)

lemma utf8_unit_nonempty: "utf8_unit c \<noteq> []"
  by (simp add: utf8_unit_def Let_def)

lemma textEncode_empty_iff: "textEncode s = [] \<longleftrightarrow> s = []"
  by (cases s) (simp_all add: textEncode_def utf8_unit_nonempty)

lemma hkdf_extract_eq:
  "hkdf_extract ikm salt =
     Inr (hmac_sha256 (if salt = [] then replicate 32 0 else textEncode salt) ikm)"
  using textEncode_empty_iff [of salt]
  by (simp add: hkdf_extract_def importKey_def sign_def Let_def)

lemma hkdfWithSteps_extract_eq:
  "hkdfWithSteps_extract ikm salt =
     Inr (hmac_sha256 (if salt = [] then replicate 32 0 else textEncode salt) ikm)"
  using textEncode_empty_iff [of salt]
  by (simp add: hkdfWithSteps_extract_def importKey_def sign_def Let_def)

lemma importKey_hmac: "importKey (hmac_sha256 k m) = Inr (hmac_sha256 k m)"
proof -
  have "hmac_sha256 k m \<noteq> []"
  proof
    assume "hmac_sha256 k m = []"
    then have "length (hmac_sha256 k m) = 0" by simp
    then show False by (simp add: length_hmac_sha256)
  qed
  then show ?thesis by (simp add: importKey_def)
qed

lemma both_loop_equal:
  "hkdfWithSteps_loop key info n i t acc = hkdf_loop key info n i t acc"
proof (induction key info n i t acc rule: hkdf_loop.induct)
  case (1 expandKey infoBytes n i t okm)
  show ?case
  proof (cases "i \<le> n")
    case True
    with "1.IH" show ?thesis
      by (subst hkdfWithSteps_loop.simps, subst hkdf_loop.simps) (simp add: Let_def)
  next
    case False
    then show ?thesis
      by (subst hkdfWithSteps_loop.simps, subst hkdf_loop.simps) simp
  qed
qed

lemma hkdfWithSteps_okm: "map_sum id okm (hkdfWithSteps ikm salt info len) = hkdf ikm salt info len"
  by (simp add: hkdfWithSteps_def hkdf_def hkdf_extract_eq hkdfWithSteps_extract_eq
      importKey_hmac both_loop_equal Let_def)

lemma hkdf_loop_rfc:
  "i = int (Suc k) \<Longrightarrow> int k \<le> n \<Longrightarrow>
   hkdf_loop key info n i (rfc_T key info k) acc =
     acc @ concat (map (rfc_T key info) [Suc k ..< Suc (nat n)])"
proof (induction key info n i "rfc_T key info k" acc arbitrary: k rule: hkdf_loop.induct)
  case (1 expandKey infoBytes n i okm)
  define t' where "t' = rfc_T expandKey infoBytes (Suc k)"
  show ?case
  proof (cases "i \<le> n")
    case True
    have sign_eq: "sign expandKey (rfc_T expandKey infoBytes k @ infoBytes @ [word_of_int i]) = t'"
      using "1.prems"(1) by (simp add: t'_def sign_def)
    have step: "hkdf_loop expandKey infoBytes n (i + 1) t' (okm @ t')
        = (okm @ t') @ concat (map (rfc_T expandKey infoBytes) [Suc (Suc k) ..< Suc (nat n)])"
      unfolding t'_def
      by (rule "1.hyps" [OF True refl, of "Suc k", unfolded sign_eq t'_def])
         (use True "1.prems"(1) in simp_all)
    have upt: "[Suc k ..< Suc (nat n)] = Suc k # [Suc (Suc k) ..< Suc (nat n)]"
    proof -
      from True "1.prems"(1) have "Suc k < Suc (nat n)" by linarith
      then show ?thesis by (rule upt_conv_Cons)
    qed
    have "hkdf_loop expandKey infoBytes n i (rfc_T expandKey infoBytes k) okm
        = hkdf_loop expandKey infoBytes n (i + 1) t' (okm @ t')"
      using True sign_eq by (subst hkdf_loop.simps) (simp add: Let_def)
    also note step
    finally show ?thesis
      by (simp add: upt t'_def del: upt_Suc)
  next
    case False
    with "1.prems" have "nat n = k" by simp
    with False show ?thesis by (subst hkdf_loop.simps) simp
  qed
qed

lemma hkdf_loop_neg: "n < 1 \<Longrightarrow> hkdf_loop key info n 1 t acc = acc"
  by (subst hkdf_loop.simps) simp

lemma hkdf_loop_from_1:
  "hkdf_loop key info n 1 [] [] = concat (map (rfc_T key info) [1 ..< Suc (nat n)])"
proof (cases "0 \<le> n")
  case True
  then show ?thesis using hkdf_loop_rfc [of 1 0 n key info "[]"] by simp
next
  case False
  then show ?thesis by (simp add: hkdf_loop_neg)
qed

lemma length_rfc_T: "0 < i \<Longrightarrow> length (rfc_T key info i) = 32"
  by (cases i) (simp_all add: length_hmac_sha256)

lemma length_concat_rfc_T:
  "length (concat (map (rfc_T key info) [1 ..< Suc m])) = 32 * m"
proof (induction m)
  case 0
  show ?case by simp
next
  case (Suc m)
  have "[1 ..< Suc (Suc m)] = [1 ..< Suc m] @ [Suc m]"
    by (rule upt_Suc_append) simp
  with Suc show ?case
    by (simp add: length_rfc_T del: upt_Suc rfc_T.simps)
qed

lemma ceil32_nonneg: "0 \<le> len \<Longrightarrow> ceil32 len = (len + 31) div 32"
  unfolding ceil32_def by linarith

lemma nat_ceil32: "0 \<le> len \<Longrightarrow> nat (ceil32 len) = (nat len + 31) div 32"
  by (simp add: ceil32_nonneg nat_div_distrib nat_add_distrib)

lemma hkdf_eq:
  "hkdf ikm salt info len =
     Inr (slice0 (concat (map (rfc_T (hmac_sha256 (if salt = [] then replicate 32 0 else textEncode salt) ikm)
            (textEncode info)) [1 ..< Suc (nat (ceil32 len))])) len)"
  by (simp add: hkdf_def hkdf_extract_eq importKey_hmac hkdf_loop_from_1 Let_def)

lemma length_slice0_blocks:
  assumes "length xs = 32 * nat (ceil32 len)"
  shows "length (slice0 xs len) = nat len"
proof (cases "0 \<le> len")
  case True
  then have "nat len \<le> 32 * nat (ceil32 len)"
    by (simp add: nat_ceil32)
  with True assms show ?thesis by (simp add: slice0_def)
next
  case False
  then have "ceil32 len \<le> 0" by (simp add: ceil32_def)
  with False assms show ?thesis by (simp add: slice0_def)
qed

lemma hkdf_length:
  "\<exists>out. hkdf ikm salt info len = Inr out \<and> length out = nat len"
proof -
  let ?key = "hmac_sha256 (if salt = [] then replicate 32 0 else textEncode salt) ikm"
  let ?xs = "concat (map (rfc_T ?key (textEncode info)) [1 ..< Suc (nat (ceil32 len))])"
  have "length (slice0 ?xs len) = nat len"
    by (rule length_slice0_blocks) (rule length_concat_rfc_T)
  then show ?thesis unfolding hkdf_eq by blast
qed

lemma hkdf_rfc_expand:
  assumes "1 \<le> len" "len \<le> 255 * 32"
  shows "hkdf ikm salt info len =
     rfc_expand (hmac_sha256 (if salt = [] then replicate 32 0 else textEncode salt) ikm)
       (textEncode info) (nat len)"
  using assms unfolding hkdf_eq rfc_expand_def by (simp add: slice0_def nat_ceil32 del: upt_Suc)

section \<open>Scalar multiplication through the hex interface\<close>

lemma parseCoord_hex:
  assumes "length bs = 32"
  shows "parseCoord (concat (map byteToHex bs)) = bs"
proof -
  have eq: "map (\<lambda>i. toUint8 (parseInt16 (substr (concat (map byteToHex bs)) (i * 2) 2))) [0 ..< length bs]
      = map (\<lambda>i. bs ! i) [0 ..< length bs]"
  proof (rule map_cong)
    fix i assume "i \<in> set [0 ..< length bs]"
    then have "i < length bs" by simp
    then have "substr (concat (map byteToHex bs)) (2 * i) 2 = byteToHex (bs ! i)"
      by (rule substr_concat_byteToHex)
    moreover have "i * 2 = 2 * i" by simp
    ultimately show "toUint8 (parseInt16 (substr (concat (map byteToHex bs)) (i * 2) 2)) = bs ! i"
      by (simp only: toUint8_byteToHex)
  qed simp
  have "parseCoord (concat (map byteToHex bs))
      = map (\<lambda>i. toUint8 (parseInt16 (substr (concat (map byteToHex bs)) (i * 2) 2))) [0 ..< length bs]"
    by (simp only: parseCoord_def assms)
  also note eq
  also have "map (\<lambda>i. bs ! i) [0 ..< length bs] = bs" by (rule map_nth)
  finally show ?thesis .
qed

lemma bytes65_split:
  assumes "length bs = 65" "take 1 bs = [0x04]"
  shows "[0x04] @ take 32 (drop 1 bs) @ take 32 (drop 33 bs) = (bs :: byte list)"
proof -
  have b: "take 32 (drop 1 bs) @ drop 33 bs = drop 1 bs"
    using append_take_drop_id [of 32 "drop 1 bs"] by simp
  have c: "take 32 (drop 33 bs) = drop 33 bs"
    using assms(1) by simp
  have "[0x04] @ take 32 (drop 1 bs) @ take 32 (drop 33 bs) = take 1 bs @ drop 1 bs"
    by (simp only: c b assms(2))
  then show ?thesis by simp
qed

lemma parse_bytesToPoint:
  assumes "length bs = 65" "take 1 bs = [0x04]"
  shows "[0x04] @ parseCoord (replaceFirst ''0x'' '''' (ec_x (bytesToPoint bs)))
          @ parseCoord (replaceFirst ''0x'' '''' (ec_y (bytesToPoint bs))) = bs"
proof -
  from assms(1) have "length (take 32 (drop 1 bs)) = 32" "length (take 32 (drop 33 bs)) = 32"
    by simp_all
  then show ?thesis
    using bytes65_split [OF assms] by (simp add: bytesToPoint_def parseCoord_hex)
qed

lemma performECDH_point:
  assumes ok: "curve_ok C"
    and P: "curve_valid C P" "P \<noteq> curve_O C"
    and k: "scalarOfHex h = Inr k" "0 < k" "k < curve_n C"
  shows "performECDH C h (bytesToPoint (curve_toBytes C P))
           = Inr (bytesToPoint (curve_toBytes C (curve_mul C k P)))"
proof -
  let ?bs = "curve_toBytes C P"
  let ?Q = "curve_mul C k P"
  from ok P have enc: "length ?bs = 65" "take 1 ?bs = [0x04]" "curve_fromBytes C ?bs = Some P"
    by (simp_all add: curve_ok_def)
  from ok P k have Q: "curve_valid C ?Q" "?Q \<noteq> curve_O C"
    by (simp_all add: curve_ok_def)
  with ok have encQ: "length (curve_toBytes C ?Q) = 65" "take 1 (curve_toBytes C ?Q) = [0x04]"
    by (simp_all add: curve_ok_def)
  have dec: "fromHex C ?bs = Inr P"
    using enc(3) P(2) by (simp add: fromHex_def)
  have mul: "multiply C P k = Inr ?Q"
    using k by (simp add: multiply_def)
  have raw: "toRawBytes C ?Q = Inr (curve_toBytes C ?Q)"
    using Q(2) by (simp add: toRawBytes_def)
  show ?thesis
    using k(1) parse_bytesToPoint [OF enc(1,2)] dec mul raw encQ
    by (simp add: performECDH_def scalarOfHex_def Let_def)
qed

lemma privateKeyToPublicKey_point:
  assumes ok: "curve_ok C"
    and k: "scalarOfHex h = Inr k" "0 < k" "k < curve_n C"
  shows "privateKeyToPublicKey C h = Inr (bytesToPoint (curve_toBytes C (curve_mul C k (curve_G C))))
       \<and> curve_valid C (curve_mul C k (curve_G C)) \<and> curve_mul C k (curve_G C) \<noteq> curve_O C"
proof -
  let ?Q = "curve_mul C k (curve_G C)"
  from ok k have Q: "curve_valid C ?Q" "?Q \<noteq> curve_O C"
    by (simp_all add: curve_ok_def)
  with ok have encQ: "length (curve_toBytes C ?Q) = 65" "take 1 (curve_toBytes C ?Q) = [0x04]"
    by (simp_all add: curve_ok_def)
  have "getPublicKey C k = Inr (curve_toBytes C ?Q)"
    using k Q by (simp add: getPublicKey_def multiply_def toRawBytes_def)
  with k(1) encQ Q show ?thesis
    by (simp add: privateKeyToPublicKey_def scalarOfHex_def Let_def)
qed

lemma curve_mul_swap:
  "curve_ok C \<Longrightarrow> curve_valid C P \<Longrightarrow>
   curve_mul C a (curve_mul C b P) = curve_mul C b (curve_mul C a P)"
  by (simp add: curve_ok_def)

lemma curve_mul_valid:
  "curve_ok C \<Longrightarrow> curve_valid C P \<Longrightarrow> P \<noteq> curve_O C \<Longrightarrow> 0 < k \<Longrightarrow> k < curve_n C \<Longrightarrow>
   curve_valid C (curve_mul C k P) \<and> curve_mul C k P \<noteq> curve_O C"
  by (simp add: curve_ok_def)

lemma secrets_agree:
  assumes ok: "curve_ok C"
    and d: "scalarOfHex d = Inr dn" "0 < dn" "dn < curve_n C"
    and b: "scalarOfHex b = Inr bn" "0 < bn" "bn < curve_n C"
    and v: "scalarOfHex v = Inr vn" "0 < vn" "vn < curve_n C"
  shows "producerSecret C d b v
           = Inr (bytesToPoint (curve_toBytes C (curve_mul C dn (curve_mul C bn (curve_mul C vn (curve_G C))))))"
    and "validatorSecret C d b v = producerSecret C d b v"
proof -
  let ?G = "curve_G C"
  from ok have G: "curve_valid C ?G" by (simp add: curve_ok_def)
  note V = privateKeyToPublicKey_point [OF ok v]
  note B = curve_mul_valid [OF ok conjunct1 [OF conjunct2 [OF V]] conjunct2 [OF conjunct2 [OF V]] b(2,3)]
  have 1: "scalarMultiplication C b (bytesToPoint (curve_toBytes C (curve_mul C vn ?G)))
      = Inr (bytesToPoint (curve_toBytes C (curve_mul C bn (curve_mul C vn ?G))))"
    unfolding scalarMultiplication_def using V by (intro performECDH_point [OF ok _ _ b]) simp_all
  have 2: "performECDH C d (bytesToPoint (curve_toBytes C (curve_mul C bn (curve_mul C vn ?G))))
      = Inr (bytesToPoint (curve_toBytes C (curve_mul C dn (curve_mul C bn (curve_mul C vn ?G)))))"
    using B by (intro performECDH_point [OF ok _ _ d]) simp_all
  show p: "producerSecret C d b v
           = Inr (bytesToPoint (curve_toBytes C (curve_mul C dn (curve_mul C bn (curve_mul C vn ?G)))))"
    using V 1 2 by (simp add: producerSecret_def)
  note bG = privateKeyToPublicKey_point [OF ok b]
  note dbG = curve_mul_valid [OF ok conjunct1 [OF conjunct2 [OF bG]] conjunct2 [OF conjunct2 [OF bG]] d(2,3)]
  have 3: "performECDH C d (bytesToPoint (curve_toBytes C (curve_mul C bn ?G)))
      = Inr (bytesToPoint (curve_toBytes C (curve_mul C dn (curve_mul C bn ?G))))"
    using bG by (intro performECDH_point [OF ok _ _ d]) simp_all
  have 4: "performECDH C v (bytesToPoint (curve_toBytes C (curve_mul C dn (curve_mul C bn ?G))))
      = Inr (bytesToPoint (curve_toBytes C (curve_mul C vn (curve_mul C dn (curve_mul C bn ?G)))))"
    using dbG by (intro performECDH_point [OF ok _ _ v]) simp_all
  have "curve_mul C bn (curve_mul C vn ?G) = curve_mul C vn (curve_mul C bn ?G)"
    by (rule curve_mul_swap [OF ok G])
  moreover have "curve_mul C dn (curve_mul C vn (curve_mul C bn ?G))
      = curve_mul C vn (curve_mul C dn (curve_mul C bn ?G))"
    using bG by (intro curve_mul_swap [OF ok]) simp
  ultimately have "curve_mul C vn (curve_mul C dn (curve_mul C bn ?G))
      = curve_mul C dn (curve_mul C bn (curve_mul C vn ?G))"
    by simp
  with bG 3 4 have "validatorSecret C d b v
      = Inr (bytesToPoint (curve_toBytes C (curve_mul C dn (curve_mul C bn (curve_mul C vn ?G)))))"
    by (simp add: validatorSecret_def calculateDbG_def)
  with p show "validatorSecret C d b v = producerSecret C d b v" by simp
qed

section \<open>Scalars as hex strings and the example curve\<close>

lemma toy_mul_nonzero:
  assumes "0 < k" "k < 7" "0 < P" "P < (7::nat)"
  shows "(k * P) mod 7 \<noteq> 0"
proof -
  from assms(1,2) have "k \<in> {1, 2, 3, 4, 5, 6}" by auto
  moreover from assms(3,4) have "P \<in> {1, 2, 3, 4, 5, 6}" by auto
  ultimately show ?thesis by auto
qed

lemma toy_roundtrip:
  assumes "P < 7"
  shows "toy_fromBytes (toy_toBytes P) = Some P"
proof -
  have nth: "toy_toBytes P ! 32 = (of_nat P :: byte)"
    by (simp add: toy_toBytes_def nth_append nth_Cons')
  from assms have "P < 256" by simp
  then have "unat (of_nat P :: byte) = P"
    by (simp add: unat_of_nat)
  with assms nth show ?thesis
    by (simp add: toy_fromBytes_def) (simp add: toy_toBytes_def)
qed

lemma toy_curve_ok: "curve_ok toy_curve"
  unfolding curve_ok_def
proof (intro conjI allI impI)
  show "curve_valid toy_curve (curve_G toy_curve)" by (simp add: toy_curve_def)
  show "curve_G toy_curve \<noteq> curve_O toy_curve" by (simp add: toy_curve_def)
next
  fix k P
  assume "curve_valid toy_curve P \<and> P \<noteq> curve_O toy_curve \<and> 0 < k \<and> k < curve_n toy_curve"
  then have a: "P < 7" "0 < P" "0 < k" "k < 7" by (simp_all add: toy_curve_def)
  show "curve_valid toy_curve (curve_mul toy_curve k P)" by (simp add: toy_curve_def)
  show "curve_mul toy_curve k P \<noteq> curve_O toy_curve"
    using toy_mul_nonzero [OF a(3,4,2,1)] by (simp add: toy_curve_def)
next
  fix a b P :: nat
  have "(a * (b * P mod 7)) mod 7 = (a * (b * P)) mod 7" by (rule mod_mult_right_eq)
  moreover have "(b * (a * P mod 7)) mod 7 = (b * (a * P)) mod 7" by (rule mod_mult_right_eq)
  moreover have "a * (b * P) = b * (a * P)" by (simp add: ac_simps)
  ultimately show "curve_mul toy_curve a (curve_mul toy_curve b P)
      = curve_mul toy_curve b (curve_mul toy_curve a P)"
    by (simp add: toy_curve_def)
next
  fix P
  assume "curve_valid toy_curve P \<and> P \<noteq> curve_O toy_curve"
  then have P: "P < 7" by (simp add: toy_curve_def)
  show "length (curve_toBytes toy_curve P) = 65" by (simp add: toy_curve_def toy_toBytes_def)
  show "take 1 (curve_toBytes toy_curve P) = [0x04]" by (simp add: toy_curve_def toy_toBytes_def)
  show "curve_fromBytes toy_curve (curve_toBytes toy_curve P) = Some P"
    using toy_roundtrip [OF P] by (simp add: toy_curve_def)
qed

lemma trimEnd_id: "s \<noteq> [] \<Longrightarrow> \<not> isWhiteSpace (last s) \<Longrightarrow> trimEnd s = s"
  by (cases s rule: rev_cases) (simp_all add: trimEnd_def)

lemma zero_not_ws: "\<not> isWhiteSpace CHR ''0''"
  by (simp add: isWhiteSpace_def)

lemma hexVal_zero: "hexVal CHR ''0'' = Some 0"
  by (simp add: hexVal_def)

lemma replaceFirst_zeros: "replaceFirst ''0x'' '''' (replicate k CHR ''0'') = replicate k CHR ''0''"
proof (induction k)
  case 0
  show ?case by simp
next
  case (Suc k)
  have "take 2 (CHR ''0'' # replicate k CHR ''0'') \<noteq> ''0x''"
    by (cases k) simp_all
  with Suc show ?case by simp
qed

lemma hexDigitsValue_zeros: "hexDigitsValue 0 (replicate k CHR ''0'') = 0"
  by (induction k) (simp_all add: hexVal_zero)

lemma bigIntOfHex_zeros: "0 < k \<Longrightarrow> bigIntOfHex (replicate k CHR ''0'') = Inr 0"
proof -
  assume k: "0 < k"
  then have ne: "replicate k CHR ''0'' \<noteq> []" by simp
  have "last (replicate k CHR ''0'') = CHR ''0''" using k by simp
  with ne have "trimEnd (replicate k CHR ''0'') = replicate k CHR ''0''"
    by (intro trimEnd_id) (simp_all add: zero_not_ws)
  with k show ?thesis
    by (simp add: bigIntOfHex_def hexDigitsValue_zeros list_all_iff hexVal_zero)
qed

lemma scalarOfHex_zero:
  assumes "0 < k" "h = replicate k CHR ''0'' \<or> h = ''0x'' @ replicate k CHR ''0''"
  shows "scalarOfHex h = Inr 0"
  using assms(2)
proof
  assume "h = replicate k CHR ''0''"
  with assms(1) show ?thesis
    by (simp add: scalarOfHex_def replaceFirst_zeros bigIntOfHex_zeros)
next
  assume "h = ''0x'' @ replicate k CHR ''0''"
  then have "replaceFirst ''0x'' '''' h = replicate k CHR ''0''" by simp
  with assms(1) show ?thesis
    by (simp add: scalarOfHex_def bigIntOfHex_zeros)
qed

lemma privateKeyToPublicKey_scalar_zero:
  "scalarOfHex h = Inr 0 \<Longrightarrow> privateKeyToPublicKey C h = Inl InvalidScalar"
  by (simp add: privateKeyToPublicKey_def scalarOfHex_def getPublicKey_def multiply_def)

lemma hexDigitsValue_byteToHex:
  "hexDigitsValue acc (byteToHex b @ rest) = hexDigitsValue (256 * acc + unat b) rest"
proof -
  have lt: "unat b < 256" using unsigned_less [of b] by simp
  then have hi: "unat b div 16 < 16" by simp
  have lo: "unat b mod 16 < 16" by simp
  have eq: "16 * (16 * acc + unat b div 16) + unat b mod 16 = 256 * acc + unat b" by simp
  have "hexDigitsValue acc (byteToHex b @ rest)
      = hexDigitsValue (16 * (16 * acc + unat b div 16) + unat b mod 16) rest"
    by (simp add: byteToHex_digits hexVal_hexDigit [OF hi] hexVal_hexDigit [OF lo])
  also have "\<dots> = hexDigitsValue (256 * acc + unat b) rest"
    by (simp only: eq)
  finally show ?thesis .
qed

lemma hexDigitsValue_bytes:
  "hexDigitsValue acc (concat (map byteToHex bs)) = foldl (\<lambda>acc b. 256 * acc + unat b) acc bs"
proof (induction bs arbitrary: acc)
  case Nil
  show ?case by simp
next
  case (Cons b bs)
  show ?case by (simp add: hexDigitsValue_byteToHex Cons.IH)
qed

lemma hex_chars_valid: "list_all (\<lambda>c. hexVal c \<noteq> None) (concat (map byteToHex bs))"
proof (induction bs)
  case Nil
  show ?case by simp
next
  case (Cons b bs)
  have lt: "unat b < 256" using unsigned_less [of b] by simp
  then have hi: "unat b div 16 < 16" by simp
  have lo: "unat b mod 16 < 16" by simp
  from Cons show ?case
    by (simp add: byteToHex_digits hexVal_hexDigit [OF hi] hexVal_hexDigit [OF lo])
qed

lemma last_hex_not_ws:
  assumes "bs \<noteq> []"
  shows "concat (map byteToHex bs) \<noteq> [] \<and> \<not> isWhiteSpace (last (concat (map byteToHex bs)))"
proof -
  from assms obtain cs c where bs: "bs = cs @ [c]" by (cases bs rule: rev_cases) auto
  have "unat c mod 16 < 16" by simp
  then show ?thesis
    by (simp add: bs byteToHex_digits hexDigit_not_ws)
qed

lemma scalarOfHex_arrayBufferToHex:
  assumes "bs \<noteq> []"
  shows "scalarOfHex (arrayBufferToHex bs) = Inr (be_nat bs)"
proof -
  have "replaceFirst ''0x'' '''' (arrayBufferToHex bs) = concat (map byteToHex bs)"
    by (simp add: arrayBufferToHex_def)
  moreover have "trimEnd (concat (map byteToHex bs)) = concat (map byteToHex bs)"
    using last_hex_not_ws [OF assms] by (intro trimEnd_id) simp_all
  ultimately show ?thesis
    using last_hex_not_ws [OF assms] hex_chars_valid [of bs]
    by (simp add: scalarOfHex_def bigIntOfHex_def hexDigitsValue_bytes be_nat_def Let_def)
qed

lemma be_nat_bound: "be_nat bs < 256 ^ length bs"
proof -
  have "foldl (\<lambda>acc b. 256 * acc + unat b) acc bs < (acc + 1) * 256 ^ length bs" for acc
  proof (induction bs arbitrary: acc)
    case Nil
    show ?case by simp
  next
    case (Cons b bs)
    have lt: "unat b < 256" using unsigned_less [of b] by simp
    then have "256 * acc + unat b + 1 \<le> (acc + 1) * 256" by simp
    then have "(256 * acc + unat b + 1) * 256 ^ length bs \<le> (acc + 1) * 256 * 256 ^ length bs"
      by (rule mult_le_mono1)
    moreover have "(acc + 1) * 256 * 256 ^ length bs = (acc + 1) * 256 ^ Suc (length bs)"
      by (simp only: power_Suc mult.assoc)
    ultimately have le: "(256 * acc + unat b + 1) * 256 ^ length bs \<le> (acc + 1) * 256 ^ Suc (length bs)"
      by (simp only:)
    have "foldl (\<lambda>acc b. 256 * acc + unat b) (256 * acc + unat b) bs
        < (256 * acc + unat b + 1) * 256 ^ length bs"
      by (rule Cons.IH)
    then have "foldl (\<lambda>acc b. 256 * acc + unat b) (256 * acc + unat b) bs
        < (acc + 1) * 256 ^ Suc (length bs)"
      using le by (rule less_le_trans)
    then show ?case by simp
  qed
  from this [of 0] show ?thesis by (simp add: be_nat_def)
qed

lemma be_nat_zeros: "be_nat (replicate n 0) = 0"
proof -
  have "foldl (\<lambda>acc b. 256 * acc + unat b) 0 (replicate n (0::byte)) = 0"
    by (induction n) simp_all
  then show ?thesis by (simp add: be_nat_def)
qed

section \<open>The claims\<close>

lemma hkdfWithSteps_result:
  "\<exists>out. length out = nat len \<and> hkdf ikm salt info len = Inr out \<and>
     hkdfWithSteps ikm salt info len =
       Inr \<lparr>prk = hmac_sha256 (if salt = [] then replicate 32 0 else textEncode salt) ikm,
            okm = out,
            prkHex = arrayBufferToHex (hmac_sha256 (if salt = [] then replicate 32 0 else textEncode salt) ikm),
            okmHex = arrayBufferToHex out\<rparr>"
proof -
  from hkdf_length [of ikm salt info len]
  obtain out where out: "hkdf ikm salt info len = Inr out" "length out = nat len" by blast
  from out(1) have "hkdfWithSteps ikm salt info len =
       Inr \<lparr>prk = hmac_sha256 (if salt = [] then replicate 32 0 else textEncode salt) ikm,
            okm = out,
            prkHex = arrayBufferToHex (hmac_sha256 (if salt = [] then replicate 32 0 else textEncode salt) ikm),
            okmHex = arrayBufferToHex out\<rparr>"
    by (simp add: hkdfWithSteps_def hkdf_def hkdf_extract_eq hkdfWithSteps_extract_eq
        importKey_hmac both_loop_equal Let_def)
  with out show ?thesis by blast
qed

lemma derive_keys_agree:
  "\<exists>key. length key = 32 \<and> deriveHMACKey S hkdfSalt hkdfInfo = Inr (arrayBufferToHex key) \<and>
     validatorHmacKey S hkdfSalt hkdfInfo = Inr (arrayBufferToHex key)"
proof -
  from hkdfWithSteps_result [of 32 "hexToArrayBuffer (ec_x S)" hkdfSalt hkdfInfo]
  obtain out where "length out = 32" "hkdf (hexToArrayBuffer (ec_x S)) hkdfSalt hkdfInfo 32 = Inr out"
    "hkdfWithSteps (hexToArrayBuffer (ec_x S)) hkdfSalt hkdfInfo 32 =
       Inr \<lparr>prk = hmac_sha256 (if hkdfSalt = [] then replicate 32 0 else textEncode hkdfSalt) (hexToArrayBuffer (ec_x S)),
            okm = out,
            prkHex = arrayBufferToHex (hmac_sha256 (if hkdfSalt = [] then replicate 32 0 else textEncode hkdfSalt) (hexToArrayBuffer (ec_x S))),
            okmHex = arrayBufferToHex out\<rparr>"
    by auto
  then show ?thesis
    by (intro exI [of _ out]) (simp add: deriveHMACKey_def validatorHmacKey_def)
qed

text \<open>
  Claim C1: for scalars \<open>d\<close>, \<open>b\<close>, \<open>v\<close>, each nonzero and below the group order,
  the producer's shared secret
  \<open>performECDH(d, scalarMultiplication(b, privateKeyToPublicKey(v)))\<close> equals the
  validator's \<open>performECDH(v, calculateDbG(d, b))\<close>, both calls succeed, and the HKDF
  derivations over the x-coordinate with the same salt and info give the same 32-byte
  key on both sides. The scalars are given as the hex strings the functions take;
  \<open>dn\<close>, \<open>bn\<close>, \<open>vn\<close> are the values the code reads from them. The curve arithmetic
  is the library's: the theorem holds for every curve that satisfies \<open>curve_ok\<close>.
\<close>

theorem shared_secret_agrees:
  assumes "curve_ok C"
    and "scalarOfHex d = Inr dn" "0 < dn" "dn < curve_n C"
    and "scalarOfHex b = Inr bn" "0 < bn" "bn < curve_n C"
    and "scalarOfHex v = Inr vn" "0 < vn" "vn < curve_n C"
  shows "\<exists>S key. producerSecret C d b v = Inr S \<and> validatorSecret C d b v = Inr S \<and>
           length key = 32 \<and>
           deriveHMACKey S hkdfSalt hkdfInfo = Inr (arrayBufferToHex key) \<and>
           validatorHmacKey S hkdfSalt hkdfInfo = Inr (arrayBufferToHex key)"
proof -
  let ?S = "bytesToPoint (curve_toBytes C (curve_mul C dn (curve_mul C bn (curve_mul C vn (curve_G C)))))"
  have p: "producerSecret C d b v = Inr ?S"
    by (rule secrets_agree(1) [OF assms])
  have "validatorSecret C d b v = producerSecret C d b v"
    by (rule secrets_agree(2) [OF assms])
  with p have v: "validatorSecret C d b v = Inr ?S" by simp
  from derive_keys_agree [of ?S hkdfSalt hkdfInfo] p v show ?thesis by blast
qed

text \<open>
  The hypotheses of C1 hold on the seven-element example curve with the scalars of the
  specification's end-to-end scenario (\<open>d = 0x01\<close>, \<open>v = 0x02\<close>, \<open>b = 0x03\<close>).
\<close>

theorem shared_secret_agrees_witness:
  "curve_ok toy_curve \<and>
   scalarOfHex ''0x01'' = Inr 1 \<and> (0::nat) < 1 \<and> 1 < curve_n toy_curve \<and>
   scalarOfHex ''0x03'' = Inr 3 \<and> (0::nat) < 3 \<and> 3 < curve_n toy_curve \<and>
   scalarOfHex ''0x02'' = Inr 2 \<and> (0::nat) < 2 \<and> 2 < curve_n toy_curve \<and>
   (\<exists>S key. producerSecret toy_curve ''0x01'' ''0x03'' ''0x02'' = Inr S \<and>
      validatorSecret toy_curve ''0x01'' ''0x03'' ''0x02'' = Inr S \<and>
      length key = 32 \<and>
      deriveHMACKey S '''' ''test-info'' = Inr (arrayBufferToHex key) \<and>
      validatorHmacKey S '''' ''test-info'' = Inr (arrayBufferToHex key))"
proof -
  have d: "scalarOfHex ''0x01'' = Inr 1"
    by (simp add: scalarOfHex_def bigIntOfHex_def trimEnd_def isWhiteSpace_def hexVal_def)
  have b: "scalarOfHex ''0x03'' = Inr 3"
    by (simp add: scalarOfHex_def bigIntOfHex_def trimEnd_def isWhiteSpace_def hexVal_def)
  have v: "scalarOfHex ''0x02'' = Inr 2"
    by (simp add: scalarOfHex_def bigIntOfHex_def trimEnd_def isWhiteSpace_def hexVal_def)
  have n: "curve_n toy_curve = 7" by (simp add: toy_curve_def)
  have "\<exists>S key. producerSecret toy_curve ''0x01'' ''0x03'' ''0x02'' = Inr S \<and>
      validatorSecret toy_curve ''0x01'' ''0x03'' ''0x02'' = Inr S \<and>
      length key = 32 \<and>
      deriveHMACKey S '''' ''test-info'' = Inr (arrayBufferToHex key) \<and>
      validatorHmacKey S '''' ''test-info'' = Inr (arrayBufferToHex key)"
    by (rule shared_secret_agrees [OF toy_curve_ok d _ _ b _ _ v]) (simp_all add: n)
  with toy_curve_ok d b v n show ?thesis by simp
qed

text \<open>
  Claim C2 says that a requested length above \<open>255 * 32 = 8160\<close> fails with
  \<open>InvalidLength\<close>. Neither function checks the length: at 8161 both return 8161
  bytes of output keying material.
\<close>

theorem hkdf_no_length_check_counterexample:
  "hkdf [] '''' '''' 8161 \<noteq> Inl InvalidLength \<and>
   length (projr (hkdf [] '''' '''' 8161)) = 8161 \<and>
   map_sum id okm (hkdfWithSteps [] '''' '''' 8161) \<noteq> Inl InvalidLength \<and>
   length (projr (map_sum id okm (hkdfWithSteps [] '''' '''' 8161))) = 8161"
proof -
  from hkdfWithSteps_result [of 8161 "[]" "''''" "''''"]
  obtain out where "length out = 8161" "hkdf [] '''' '''' 8161 = Inr out"
    "map_sum id okm (hkdfWithSteps [] '''' '''' 8161) = Inr out"
    by auto
  then show ?thesis by simp
qed

text \<open>
  Claim C2 as the code has it: for every input keying material, salt, info and integer
  length, \<open>hkdf\<close> and \<open>hkdfWithSteps\<close> return without error, the same bytes, and
  exactly \<open>max length 0\<close> of them, whatever the length.
\<close>

theorem hkdf_returns_requested_length:
  "\<exists>out. hkdf ikm salt info len = Inr out \<and>
         map_sum id okm (hkdfWithSteps ikm salt info len) = Inr out \<and>
         length out = nat len"
  using hkdfWithSteps_result [of len ikm salt info] by auto

lemma be_nat_ff: "be_nat (replicate n 0xff) = 256 ^ n - 1"
proof -
  have "foldl (\<lambda>acc b. 256 * acc + unat b) acc (replicate n (0xff::byte)) + 1 = (acc + 1) * 256 ^ n" for acc
  proof (induction n arbitrary: acc)
    case 0
    show ?case by simp
  next
    case (Suc n)
    have "foldl (\<lambda>acc b. 256 * acc + unat b) (256 * acc + 255) (replicate n (0xff::byte)) + 1
        = (256 * acc + 255 + 1) * 256 ^ n"
      by (rule Suc.IH)
    also have "\<dots> = (acc + 1) * 256 ^ Suc n"
      by (simp add: algebra_simps)
    finally show ?case by simp
  qed
  from this [of 0] show ?thesis by (simp add: be_nat_def)
qed

lemma map_zero_rng: "map zero_rng [0 ..< n] = replicate n 0"
  by (induction n) (simp_all add: zero_rng_def replicate_append_same)

lemma map_ones_rng: "map ones_rng [0 ..< n] = replicate n 0xff"
  by (induction n) (simp_all add: ones_rng_def replicate_append_same)

text \<open>
  Claim C3 says that \<open>generatePrivateKey\<close> fails when the draw is zero or at least the
  group order, so that every returned scalar lies in \<open>[1, n - 1]\<close>. The function has no
  such check: when the random source delivers 32 zero bytes the returned scalar is 0,
  and when it delivers 32 bytes \<open>0xff\<close> the returned scalar is \<open>2^256 - 1\<close>, above the
  order of P-256.
\<close>

theorem generatePrivateKey_counterexample:
  "scalarOfHex (fst (generatePrivateKey zero_rng)) = Inr 0 \<and>
   scalarOfHex (fst (generatePrivateKey ones_rng)) = Inr (256 ^ 32 - 1) \<and>
   p256_n \<le> 256 ^ 32 - 1"
proof -
  have ne: "replicate 32 (0::byte) \<noteq> []" "replicate 32 (0xff::byte) \<noteq> []"
    by simp_all
  have z: "scalarOfHex (fst (generatePrivateKey zero_rng)) = Inr 0"
    using scalarOfHex_arrayBufferToHex [OF ne(1)]
    by (simp only: generatePrivateKey_def getRandomValues_def map_zero_rng be_nat_zeros
        Let_def split_conv fst_conv)
  have o: "scalarOfHex (fst (generatePrivateKey ones_rng)) = Inr (256 ^ 32 - 1)"
    using scalarOfHex_arrayBufferToHex [OF ne(2)]
    by (simp only: generatePrivateKey_def getRandomValues_def map_ones_rng be_nat_ff
        Let_def split_conv fst_conv)
  have "p256_n \<le> 256 ^ 32 - 1" by (simp add: p256_n_def)
  with z o show ?thesis by (intro conjI)
qed

text \<open>
  Claim C3 as the code has it: \<open>generatePrivateKey\<close> returns the hex encoding of the 32
  bytes it drew from the random source, whatever they are. The string decodes to these
  bytes, and the scalar the library reads from it is their big-endian value, any number
  below \<open>2^256\<close>.
\<close>

theorem generatePrivateKey_unchecked:
  "fst (generatePrivateKey r) = arrayBufferToHex (map r [0 ..< 32]) \<and>
   hexToArrayBuffer (fst (generatePrivateKey r)) = map r [0 ..< 32] \<and>
   scalarOfHex (fst (generatePrivateKey r)) = Inr (be_nat (map r [0 ..< 32])) \<and>
   be_nat (map r [0 ..< 32]) < 2 ^ 256"
proof -
  have "map r [0 ..< 32] \<noteq> []" by simp
  then have "scalarOfHex (arrayBufferToHex (map r [0 ..< 32])) = Inr (be_nat (map r [0 ..< 32]))"
    by (rule scalarOfHex_arrayBufferToHex)
  moreover have "be_nat (map r [0 ..< 32]) < 2 ^ 256"
    using be_nat_bound [of "map r [0 ..< 32]"] by simp
  ultimately show ?thesis
    by (simp add: generatePrivateKey_def getRandomValues_def hexToArrayBuffer_arrayBufferToHex)
qed

text \<open>
  Claim C4: for \<open>1 \<le> length \<le> 255 * 32\<close> the output of \<open>hkdf\<close> is the RFC 5869
  expansion of the extracted key: \<open>T(0)\<close> empty,
  \<open>T(i) = HMAC-SHA256(PRK, T(i-1) || info || byte i)\<close> for \<open>i = 1..ceil(length/32)\<close>,
  concatenated and cut to exactly \<open>length\<close> bytes.
\<close>

theorem hkdf_expand_rfc5869:
  assumes "1 \<le> len" "len \<le> 255 * 32"
  shows "\<exists>key out. hkdf_extract ikm salt = Inr key \<and>
           hkdf ikm salt info len = Inr out \<and>
           rfc_expand key (textEncode info) (nat len) = Inr out \<and>
           length out = nat len"
proof -
  let ?key = "hmac_sha256 (if salt = [] then replicate 32 0 else textEncode salt) ikm"
  from hkdf_length [of ikm salt info len]
  obtain out where out: "hkdf ikm salt info len = Inr out" "length out = nat len" by blast
  with hkdf_rfc_expand [OF assms, of ikm salt info]
  have "rfc_expand ?key (textEncode info) (nat len) = Inr out" by simp
  with out hkdf_extract_eq [of ikm salt] show ?thesis by blast
qed

text \<open>The hypotheses of C4 at length 42 (the length of the RFC's test cases).\<close>

theorem hkdf_expand_rfc5869_witness:
  "(1::int) \<le> 42 \<and> (42::int) \<le> 255 * 32 \<and>
   (\<exists>key out. hkdf_extract (replicate 22 0x0b) '''' = Inr key \<and>
      hkdf (replicate 22 0x0b) '''' '''' 42 = Inr out \<and>
      rfc_expand key (textEncode '''') (nat 42) = Inr out \<and>
      length out = nat 42)"
  using hkdf_expand_rfc5869 [of 42 "replicate 22 0x0b" "''''" "''''"] by simp

text \<open>
  Claim C5: the extract step of \<open>hkdf\<close> and of \<open>hkdfWithSteps\<close> computes
  \<open>PRK = HMAC-SHA256(key, ikm)\<close>, where the key is the UTF-8 encoding of the salt when
  the salt is a non-empty string and 32 zero bytes when it is empty; \<open>hkdfWithSteps\<close>
  returns this value in its \<open>prk\<close> field.
\<close>

theorem hkdf_extract_prk:
  "hkdf_extract ikm salt =
     Inr (hmac_sha256 (if salt = [] then replicate 32 0 else textEncode salt) ikm) \<and>
   hkdfWithSteps_extract ikm salt =
     Inr (hmac_sha256 (if salt = [] then replicate 32 0 else textEncode salt) ikm) \<and>
   map_sum id prk (hkdfWithSteps ikm salt info len) =
     Inr (hmac_sha256 (if salt = [] then replicate 32 0 else textEncode salt) ikm)"
  using hkdfWithSteps_result [of len ikm salt info]
  by (auto simp: hkdf_extract_eq hkdfWithSteps_extract_eq)

text \<open>
  Claim C6: for every byte string \<open>b\<close>, decoding the hex encoding of \<open>b\<close> gives \<open>b\<close>
  back: \<open>hexToArrayBuffer (arrayBufferToHex b) = b\<close>.
\<close>

theorem hex_roundtrip: "hexToArrayBuffer (arrayBufferToHex b) = b"
  by (rule hexToArrayBuffer_arrayBufferToHex)

text \<open>
  Claim C7: \<open>privateKeyToPublicKey\<close> fails with \<open>InvalidScalar\<close> on every hex encoding
  of zero, that is on one or more digits \<open>0\<close>, with or without the prefix \<open>0x\<close>.
  The failure is the library's rejection of a private key outside \<open>[1, n - 1]\<close>.
\<close>

theorem privateKeyToPublicKey_zero_fails:
  assumes "0 < k" "h = replicate k CHR ''0'' \<or> h = ''0x'' @ replicate k CHR ''0''"
  shows "privateKeyToPublicKey C h = Inl InvalidScalar"
  by (rule privateKeyToPublicKey_scalar_zero) (rule scalarOfHex_zero [OF assms])

text \<open>The hypotheses of C7 at the 32-byte zero scalar, \<open>0x\<close> followed by 64 zeros.\<close>

theorem privateKeyToPublicKey_zero_fails_witness:
  "(0::nat) < 64 \<and>
   (''0x'' @ replicate 64 CHR ''0'' = replicate 64 CHR ''0'' \<or>
    ''0x'' @ replicate 64 CHR ''0'' = ''0x'' @ replicate 64 CHR ''0'') \<and>
   privateKeyToPublicKey toy_curve (''0x'' @ replicate 64 CHR ''0'') = Inl InvalidScalar"
  using privateKeyToPublicKey_zero_fails [of 64 "''0x'' @ replicate 64 CHR ''0''" toy_curve]
  by simp

text \<open>
  Claim C8: two calls of \<open>hkdf\<close>, or of \<open>hkdfWithSteps\<close>, with identical arguments
  return identical results, in particular the same PRK and the same OKM, and both
  calls do return. The functions read nothing but their four arguments: no random
  source, clock or mutable state occurs in their bodies, which is why they are
  functions of these arguments here.
\<close>

theorem hkdf_deterministic:
  assumes "hkdfWithSteps ikm salt info len = r1" "hkdfWithSteps ikm salt info len = r2"
    and "hkdf ikm salt info len = k1" "hkdf ikm salt info len = k2"
  shows "r1 = r2 \<and> k1 = k2 \<and> \<not> isl r1 \<and> \<not> isl k1 \<and>
         prk (projr r1) = prk (projr r2) \<and> okm (projr r1) = okm (projr r2)"
proof -
  from hkdfWithSteps_result [of len ikm salt info] assms(1,3)
  have "\<not> isl r1" "\<not> isl k1" by auto
  with assms show ?thesis by simp
qed

text \<open>The hypotheses of C8 at the parameters of the demonstration.\<close>

theorem hkdf_deterministic_witness:
  "hkdfWithSteps [0x01] '''' ''HS256 signature key'' 32 = hkdfWithSteps [0x01] '''' ''HS256 signature key'' 32 \<and>
   hkdf [0x01] '''' ''HS256 signature key'' 32 = hkdf [0x01] '''' ''HS256 signature key'' 32 \<and>
   \<not> isl (hkdfWithSteps [0x01] '''' ''HS256 signature key'' 32) \<and>
   \<not> isl (hkdf [0x01] '''' ''HS256 signature key'' 32)"
  using hkdf_deterministic [OF refl refl refl refl, of "[0x01]" "''''" "''HS256 signature key''" 32]
  by simp

text \<open>
  Claim C9: the \<open>okm\<close> field returned by \<open>hkdfWithSteps\<close> is the buffer returned by
  \<open>hkdf\<close> on the same arguments, so the producer side (\<open>deriveHMACKey\<close>) and the
  validator side (\<open>performValidatorECDH\<close>) derive the same key from the same point.
\<close>

theorem hkdfWithSteps_okm_eq_hkdf:
  "map_sum id okm (hkdfWithSteps ikm salt info len) = hkdf ikm salt info len \<and>
   deriveHMACKey S salt info = validatorHmacKey S salt info"
  using derive_keys_agree [of S salt info] by (auto simp: hkdfWithSteps_okm)

text \<open>
  Claim C10: the key returned by \<open>createPrivateKeyFromHex\<close> does not depend on its
  argument: for every state of the random source, any two arguments give the same
  result, the private half of the key pair that the platform generates.
\<close>

theorem createPrivateKeyFromHex_ignores_input:
  "createPrivateKeyFromHex generateKey a r = createPrivateKeyFromHex generateKey b r \<and>
   createPrivateKeyFromHex generateKey a r = (privateKey (fst (generateKey r)), snd (generateKey r))"
  by (simp add: createPrivateKeyFromHex_def case_prod_beta)

end
